theory Spec2Isabelle
  imports Main "HOL-Library.Multiset"
begin

section \<open>JavaScript strings and numbers\<close>

text \<open>
  A JavaScript string is modelled as a \<^typ>\<open>string\<close>: one \<^typ>\<open>char\<close> per code unit, for
  code units below 256. The functions below are the built-ins the sources call, with the
  results ECMAScript gives them.
\<close>

definition isspace :: "char \<Rightarrow> bool" where
  \<comment> \<open>the regular expression class \<open>\s\<close>, on code units below 256\<close>
  "isspace c =
     (c = CHR 0x09 \<or> c = CHR 0x0A \<or> c = CHR 0x0B \<or> c = CHR 0x0C \<or> c = CHR 0x0D \<or>
      c = CHR 0x20 \<or> c = CHR 0xA0)"

fun split_at :: "(char \<Rightarrow> bool) \<Rightarrow> string \<Rightarrow> string list" where
  \<comment> \<open>\<open>s.split(sep)\<close> for a separator of one character: a cut at every separator, empty
     pieces kept, so the result is never empty\<close>
  "split_at sep [] = [[]]"
| "split_at sep (c # cs) =
     (if sep c then [] # split_at sep cs
      else (case split_at sep cs of
              [] \<Rightarrow> [[c]]
            | t # ts \<Rightarrow> (c # t) # ts))"

definition endsWith :: "string \<Rightarrow> string \<Rightarrow> bool" where
  "endsWith s t = (length t \<le> length s \<and> drop (length s - length t) s = t)"

definition char_at :: "string \<Rightarrow> int \<Rightarrow> char option" where
  \<comment> \<open>\<open>s[i]\<close>: \<open>undefined\<close> (here \<open>None\<close>) outside the string\<close>
  "char_at s i = (if 0 \<le> i \<and> i < int (length s) then Some (s ! nat i) else None)"

definition slice_from :: "string \<Rightarrow> int \<Rightarrow> string" where
  \<comment> \<open>\<open>s.slice(start)\<close>: a negative start counts from the end, both clamped\<close>
  "slice_from s start =
     (let len = int (length s);
          k = (if start < 0 then max (len + start) 0 else min start len)
      in drop (nat k) s)"

fun show_nat :: "nat \<Rightarrow> string" where
  \<comment> \<open>the decimal digits of a non-negative integer, as a template literal prints it\<close>
  "show_nat n =
     (if n < 10 then [char_of (48 + n)]
      else show_nat (n div 10) @ [char_of (48 + n mod 10)])"

definition show_int :: "int \<Rightarrow> string" where
  "show_int i = (if i < 0 then CHR ''-'' # show_nat (nat (- i)) else show_nat (nat i))"

section \<open>Editor utilities: trigger detection\<close>

record textarea =
  ta_value :: string
  selectionStart :: nat

datatype suggestion_type = Mention | Emoji

record suggestion_data =
  keystrokeTriggered :: bool
  triggerIdx :: int
  suggestionType :: suggestion_type
  query :: string

definition getSuggestionData :: "textarea \<Rightarrow> suggestion_data" where
  "getSuggestionData textareaEl =
     (let positionIndex = selectionStart textareaEl;
          textBeforeCaret = take positionIndex (ta_value textareaEl);
          tokens = split_at isspace textBeforeCaret;
          lastToken = last tokens;
          trigIdx = (if endsWith textBeforeCaret lastToken
                     then int (length textBeforeCaret) - int (length lastToken)
                     else - 1);
          maybeTrigger = char_at textBeforeCaret trigIdx;
          mentionKeystrokeTriggered = (maybeTrigger = Some (CHR ''@''));
          emojiKeystrokeTriggered = (maybeTrigger = Some (CHR '':''))
      in \<lparr> keystrokeTriggered = (mentionKeystrokeTriggered \<or> emojiKeystrokeTriggered),
           triggerIdx = trigIdx,
           suggestionType = (if mentionKeystrokeTriggered then Mention else Emoji),
           query = slice_from textBeforeCaret (trigIdx + 1) \<rparr>)"

text \<open>
  The word the claims speak of, defined on its own: the longest suffix of the text before
  the caret that holds no whitespace.
\<close>

definition last_word :: "string \<Rightarrow> string" where
  "last_word s = rev (takeWhile (\<lambda>c. \<not> isspace c) (rev s))"

section \<open>Editor utilities: the image upload handler\<close>

fun indexOf :: "string \<Rightarrow> string \<Rightarrow> nat option" where
  \<comment> \<open>the offset of the first occurrence of \<open>pat\<close> in \<open>s\<close>\<close>
  "indexOf [] pat = (if pat = [] then Some 0 else None)"
| "indexOf (c # cs) pat =
     (if take (length pat) (c # cs) = pat then Some 0
      else map_option Suc (indexOf cs pat))"

fun getSubstitution :: "string \<Rightarrow> string \<Rightarrow> string \<Rightarrow> string \<Rightarrow> string" where
  \<comment> \<open>ECMAScript's GetSubstitution for a string pattern (no capture groups): in the
     replacement text a doubled dollar sign stands for one dollar sign, dollar-ampersand
     for the matched text, dollar-backquote for the text before the match and
     dollar-quote for the text after it; every other character, a dollar sign before
     a digit included, stands for itself\<close>
  "getSubstitution matched front back [] = []"
| "getSubstitution matched front back [c] = [c]"
| "getSubstitution matched front back (c # d # rest) =
     (if c = CHR ''$'' then
        (if d = CHR ''$'' then CHR ''$'' # getSubstitution matched front back rest
         else if d = CHR ''&'' then matched @ getSubstitution matched front back rest
         else if d = CHR 0x60 then front @ getSubstitution matched front back rest
         else if d = CHR 0x27 then back @ getSubstitution matched front back rest
         else c # getSubstitution matched front back (d # rest))
      else c # getSubstitution matched front back (d # rest))"

definition js_replace :: "string \<Rightarrow> string \<Rightarrow> string \<Rightarrow> string" where
  \<comment> \<open>\<open>s.replace(pat, replaceWith)\<close> with a string pattern: the first occurrence only\<close>
  "js_replace s pat replaceWith =
     (case indexOf s pat of
        None \<Rightarrow> s
      | Some p \<Rightarrow>
          (let front = take p s; back = drop (p + length pat) s
           in front @ getSubstitution pat front back replaceWith @ back))"

text \<open>
  The editing surface. The \<open>Cursor\<close> class comes from the editor library, which is not
  part of the sources.
\<close>

fun join_lines :: "string list \<Rightarrow> string" where
  "join_lines [] = []"
| "join_lines [l] = l"
| "join_lines (l # ls) = l @ CHR 0x0A # join_lines ls"

definition currentLineNumber :: "textarea \<Rightarrow> nat" where
  \<comment> \<open>Modelled from the spec: the line of the cursor position (\<open>cursor.position.line\<close>),
     lines counted from 1\<close>
  "currentLineNumber textareaEl =
     Suc (length (filter (\<lambda>c. c = CHR 0x0A)
            (take (selectionStart textareaEl) (ta_value textareaEl))))"

definition replaceLine :: "nat \<Rightarrow> string \<Rightarrow> string \<Rightarrow> string" where
  \<comment> \<open>Modelled from the spec: \<open>cursor.replaceLine(lineNumber, text)\<close> sets the text of that
     line and leaves the other lines as they are\<close>
  "replaceLine lineNumber text v =
     (let ls = split_at (\<lambda>c. c = CHR 0x0A) v
      in if 1 \<le> lineNumber \<and> lineNumber \<le> length ls
         then join_lines (ls[lineNumber - 1 := text]) else v)"

record uploaded_image =
  url :: string
  width :: nat
  originalFilename :: string
  dpi :: "nat option"

datatype upload_outcome =
    Uploaded uploaded_image
  | UploadError string  \<comment> \<open>the \<open>message\<close> of the error thrown\<close>

record editor =
  ed_value :: string
  toasts :: "string list"
  console :: "string list"

definition placeholder :: "string \<Rightarrow> string" where
  "placeholder file_name = ''![Uploading '' @ file_name @ ''...]()''"

definition imgWidth :: "uploaded_image \<Rightarrow> nat" where
  \<comment> \<open>\<open>Math.round(width / 2)\<close> rounds a half up\<close>
  "imgWidth uploadedImage =
     (if (case dpi uploadedImage of None \<Rightarrow> False | Some d \<Rightarrow> d \<noteq> 0 \<and> d \<ge> 144)
      then (width uploadedImage + 1) div 2
      else width uploadedImage)"

definition imgTag :: "uploaded_image \<Rightarrow> string" where
  \<open>imgTag uploadedImage =
     ''<img width="'' @ show_nat (imgWidth uploadedImage) @
     ''" alt="'' @ originalFilename uploadedImage @
     ''" src="'' @ url uploadedImage @ ''">''\<close>

definition replacePlaceholder :: "editor \<Rightarrow> string \<Rightarrow> string \<Rightarrow> editor" where
  "replacePlaceholder cursor ph replaceWith =
     cursor\<lparr>ed_value := js_replace (ed_value cursor) ph replaceWith\<rparr>"

definition upload_begin :: "nat \<Rightarrow> editor \<Rightarrow> string \<Rightarrow> editor" where
  \<comment> \<open>the part of the callback that runs before its first \<open>await\<close>\<close>
  "upload_begin lineNumber cursor file_name =
     cursor\<lparr>ed_value := replaceLine lineNumber (placeholder file_name) (ed_value cursor)\<rparr>"

definition upload_settle :: "string \<Rightarrow> upload_outcome \<Rightarrow> editor \<Rightarrow> editor" where
  \<comment> \<open>the rest of the callback, once the upload has resolved or thrown\<close>
  "upload_settle file_name outcome cursor =
     (case outcome of
        Uploaded uploadedImage \<Rightarrow>
          replacePlaceholder cursor (placeholder file_name) (imgTag uploadedImage)
      | UploadError msg \<Rightarrow>
          (let cursor' = replacePlaceholder (cursor\<lparr>console := console cursor @ [msg]\<rparr>)
                           (placeholder file_name) []
           in cursor'\<lparr>toasts := toasts cursor' @ [''Error uploading image: '' @ msg]\<rparr>))"

definition uploadImageCommandHandler ::
  "textarea \<Rightarrow> string list \<Rightarrow> (nat \<times> upload_outcome) list \<Rightarrow> editor" where
  \<comment> \<open>\<open>files\<close> are the names of the files; \<open>completions\<close> lists, in the order the uploads
     end, the index of a file and how its upload ended. \<open>forEach\<close> runs every callback up
     to its first \<open>await\<close> before any upload ends.\<close>
  "uploadImageCommandHandler textareaEl files completions =
     (let lineNumber = currentLineNumber textareaEl;
          started = foldl (upload_begin lineNumber)
                      \<lparr>ed_value = ta_value textareaEl, toasts = [], console = []\<rparr> files
      in foldl (\<lambda>cursor (idx, outcome).
                  if idx < length files then upload_settle (files ! idx) outcome cursor
                  else cursor)
           started completions)"

section \<open>The renderer\<close>

text \<open>
  \<open>marked.parse\<close> and \<open>DOMPurify.sanitize\<close> are third-party libraries; the model takes
  them as parameters. The first argument of \<open>marked_parse\<close> is the option \<open>breaks\<close>.
\<close>

record libs =
  marked_parse :: "bool \<Rightarrow> string \<Rightarrow> string"
  sanitize :: "string \<Rightarrow> string"

definition markdownToHtml :: "libs \<Rightarrow> string \<Rightarrow> string" where
  "markdownToHtml l markdown = sanitize l (marked_parse l True markdown)"

section \<open>The post router\<close>

subsection \<open>The store and the request context\<close>

record user =
  user_id :: string
  user_name :: string
  user_image :: string

record liked_post =
  like_user :: user
  like_createdAt :: int

record comment =
  comment_id :: int
  comment_content :: string
  comment_contentHtml :: string
  comment_createdAt :: int
  comment_author :: user

text \<open>
  A row of the post table with its relations; \<open>authorId\<close> is the id of \<open>author\<close>. The
  table is the list of its rows, in the order the store keeps them.
\<close>

record post =
  post_id :: int
  title :: string
  content :: string
  contentHtml :: string
  createdAt :: int
  hidden :: bool
  author :: user
  likedBy :: "liked_post list"
  comments :: "comment list"

definition authorId :: "post \<Rightarrow> string" where
  "authorId p = user_id (author p)"

record ctx =
  session_user :: user
  isUserAdmin :: bool

datatype trpc_code = BAD_REQUEST | NOT_FOUND | FORBIDDEN | INTERNAL_SERVER_ERROR

record trpc_error =
  err_code :: trpc_code
  err_message :: "string option"

definition findUnique :: "post list \<Rightarrow> int \<Rightarrow> post option" where
  "findUnique db i = find (\<lambda>p. post_id p = i) db"

fun update_post :: "post list \<Rightarrow> int \<Rightarrow> (post \<Rightarrow> post) \<Rightarrow> (post \<times> post list) option" where
  \<comment> \<open>\<open>prisma.post.update\<close>: the updated row and the new table, \<open>None\<close> (the store throws)
     when no row has the id\<close>
  "update_post [] i f = None"
| "update_post (p # ps) i f =
     (if post_id p = i then Some (f p, f p # ps)
      else map_option (\<lambda>(q, ps'). (q, p # ps')) (update_post ps i f))"

fun delete_post :: "post list \<Rightarrow> int \<Rightarrow> post list option" where
  \<comment> \<open>\<open>prisma.post.delete\<close>: \<open>None\<close> (the store throws) when no row has the id\<close>
  "delete_post [] i = None"
| "delete_post (p # ps) i =
     (if post_id p = i then Some ps else map_option (\<lambda>ps'. p # ps') (delete_post ps i))"

definition store_error :: trpc_error where
  \<comment> \<open>an error thrown by the store reaches the caller as an internal error\<close>
  "store_error = \<lparr>err_code = INTERNAL_SERVER_ERROR, err_message = None\<rparr>"

definition validation_error :: trpc_error where
  \<comment> \<open>the input does not parse against the procedure's schema\<close>
  "validation_error = \<lparr>err_code = BAD_REQUEST, err_message = None\<rparr>"

subsection \<open>feed\<close>

record feed_input =
  fi_take :: "int option"
  fi_skip :: "int option"
  fi_authorId :: "string option"

record user_ref =
  ref_id :: string
  ref_name :: string

record feed_post =
  fp_id :: int
  fp_title :: string
  fp_contentHtml :: string
  fp_createdAt :: int
  fp_hidden :: bool
  fp_author :: user
  fp_likedBy :: "user_ref list"
  fp_commentCount :: nat

record feed_result =
  posts :: "feed_post list"
  postCount :: nat

definition select_likedBy :: "liked_post list \<Rightarrow> user_ref list" where
  \<comment> \<open>\<open>likedBy: {orderBy: {createdAt: 'asc'}, select: {user: {id, name}}}\<close>\<close>
  "select_likedBy ls =
     map (\<lambda>l. \<lparr>ref_id = user_id (like_user l), ref_name = user_name (like_user l)\<rparr>)
       (sort_key like_createdAt ls)"

definition feed_select :: "post \<Rightarrow> feed_post" where
  "feed_select p =
     \<lparr> fp_id = post_id p, fp_title = title p, fp_contentHtml = contentHtml p,
       fp_createdAt = createdAt p, fp_hidden = hidden p, fp_author = author p,
       fp_likedBy = select_likedBy (likedBy p), fp_commentCount = length (comments p) \<rparr>"

definition feed_valid :: "feed_input option \<Rightarrow> bool" where
  "feed_valid input =
     (case input of
        None \<Rightarrow> True
      | Some i \<Rightarrow>
          (case fi_take i of None \<Rightarrow> True | Some t \<Rightarrow> 1 \<le> t \<and> t \<le> 50) \<and>
          (case fi_skip i of None \<Rightarrow> True | Some s \<Rightarrow> 1 \<le> s))"

definition feed_where :: "ctx \<Rightarrow> feed_input option \<Rightarrow> post \<Rightarrow> bool" where
  \<comment> \<open>\<open>{hidden: ctx.isUserAdmin ? undefined : false, authorId: input?.authorId}\<close>; an
     undefined field filters nothing\<close>
  "feed_where c input p =
     ((isUserAdmin c \<or> hidden p = False) \<and>
      (case Option.bind input fi_authorId of None \<Rightarrow> True | Some a \<Rightarrow> authorId p = a))"

definition orderBy_createdAt_desc :: "post list \<Rightarrow> post list" where
  \<comment> \<open>\<open>orderBy: {createdAt: 'desc'}\<close>; the store leaves the order of rows of equal creation
     time open, here they keep the order of the table\<close>
  "orderBy_createdAt_desc ps = sort_key (\<lambda>p. - createdAt p) ps"

definition feed :: "ctx \<Rightarrow> post list \<Rightarrow> feed_input option \<Rightarrow> trpc_error + feed_result" where
  "feed c db input =
     (if \<not> feed_valid input then Inl validation_error
      else
        (let take_n = (case Option.bind input fi_take of None \<Rightarrow> 50 | Some t \<Rightarrow> t);
             skip_n = (case Option.bind input fi_skip of None \<Rightarrow> 0 | Some s \<Rightarrow> s);
             rows = filter (feed_where c input) db;
             page = take (nat take_n) (drop (nat skip_n) (orderBy_createdAt_desc rows))
         in Inr \<lparr> posts = map feed_select page, postCount = length rows \<rparr>))"

subsection \<open>detail\<close>

record detail_post =
  dp_id :: int
  dp_title :: string
  dp_content :: string
  dp_contentHtml :: string
  dp_createdAt :: int
  dp_hidden :: bool
  dp_author :: user
  dp_likedBy :: "user_ref list"
  dp_comments :: "comment list"

definition detail_select :: "post \<Rightarrow> detail_post" where
  "detail_select p =
     \<lparr> dp_id = post_id p, dp_title = title p, dp_content = content p,
       dp_contentHtml = contentHtml p, dp_createdAt = createdAt p, dp_hidden = hidden p,
       dp_author = author p, dp_likedBy = select_likedBy (likedBy p),
       dp_comments = sort_key comment_createdAt (comments p) \<rparr>"

definition not_found :: "int \<Rightarrow> trpc_error" where
  \<comment> \<open>the message is the template literal \<open>No post with id '${id}'\<close>\<close>
  "not_found i =
     \<lparr> err_code = NOT_FOUND,
       err_message = Some (''No post with id '' @ [CHR 0x27] @ show_int i @ [CHR 0x27]) \<rparr>"

definition detail :: "ctx \<Rightarrow> post list \<Rightarrow> int \<Rightarrow> trpc_error + detail_post" where
  "detail c db i =
     (let found = findUnique db i;
          postBelongsToUser =
            (case found of None \<Rightarrow> False | Some p \<Rightarrow> authorId p = user_id (session_user c))
      in case found of
           None \<Rightarrow> Inl (not_found i)
         | Some p \<Rightarrow>
             if hidden p \<and> \<not> postBelongsToUser \<and> \<not> isUserAdmin c then Inl (not_found i)
             else Inr (detail_select p))"

subsection \<open>search\<close>

text \<open>
  The full-text search is the store's. Two \<open>search\<close> filters with the same query are one
  full-text match over both columns; the model takes that match as the parameter
  \<open>fts\<close>, applied to the query and the values of the columns.
\<close>

record search_hit =
  hit_id :: int
  hit_title :: string

definition search ::
  "(string \<Rightarrow> string list \<Rightarrow> bool) \<Rightarrow> ctx \<Rightarrow> post list \<Rightarrow> string \<Rightarrow> trpc_error + search_hit list" where
  "search fts c db q =
     (if length q < 1 then Inl validation_error
      else Inr (map (\<lambda>p. \<lparr>hit_id = post_id p, hit_title = title p\<rparr>)
             (take 10 (filter (\<lambda>p. hidden p = False \<and> fts q [title p, content p]) db))))"

subsection \<open>add\<close>

datatype effect =
    StoreCreate post            \<comment> \<open>the store has written the row\<close>
  | SlackPost post string       \<comment> \<open>a request to the webhook, with the post and the author's name\<close>
  | Logged string

datatype upstream = Delivered | UpstreamFailure string

record slack =
  slack_enabled :: bool
  slack_webhook :: "post \<Rightarrow> string \<Rightarrow> upstream"

definition postToSlackIfEnabled ::
  "slack \<Rightarrow> post \<Rightarrow> string \<Rightarrow> (trpc_error + unit) \<times> effect list" where
  \<comment> \<open>Modelled from the spec: the function \<open>postToSlackIfEnabled\<close> of \<open>lib/slack\<close>, which is
     not among the sources. It notifies the external channel with the post and the
     author's name, best effort: a failure of the notification is swallowed (logged, not
     surfaced).\<close>
  "postToSlackIfEnabled s p authorName =
     (if \<not> slack_enabled s then (Inr (), [])
      else
        (case slack_webhook s p authorName of
           Delivered \<Rightarrow> (Inr (), [SlackPost p authorName])
         | UpstreamFailure reason \<Rightarrow> (Inr (), [SlackPost p authorName, Logged reason])))"

record post_data =
  pd_title :: string
  pd_content :: string

definition data_valid :: "post_data \<Rightarrow> bool" where
  \<comment> \<open>\<open>z.object({title: z.string().min(1), content: z.string().min(1)})\<close>\<close>
  "data_valid d = (1 \<le> length (pd_title d) \<and> 1 \<le> length (pd_content d))"

definition create_post :: "libs \<Rightarrow> ctx \<Rightarrow> int \<Rightarrow> int \<Rightarrow> post_data \<Rightarrow> post" where
  \<comment> \<open>Modelled from the spec: the columns the store fills in (the schema is not among
     the sources): a server-assigned id, the creation time, \<open>hidden\<close> false by default\<close>
  "create_post l c newId now input =
     \<lparr> post_id = newId, title = pd_title input, content = pd_content input,
       contentHtml = markdownToHtml l (pd_content input), createdAt = now, hidden = False,
       author = session_user c, likedBy = [], comments = [] \<rparr>"

definition add ::
  "libs \<Rightarrow> (post \<Rightarrow> string \<Rightarrow> (trpc_error + unit) \<times> effect list) \<Rightarrow> ctx \<Rightarrow> int \<Rightarrow> int \<Rightarrow>
     post list \<Rightarrow> post_data \<Rightarrow> (trpc_error + post) \<times> post list \<times> effect list" where
  \<comment> \<open>\<open>notify\<close> is the awaited call of \<open>postToSlackIfEnabled\<close>: were it to throw, the
     mutation would throw after the row is written. \<open>newId\<close> and \<open>now\<close> are the id
     and the time the store assigns.\<close>
  "add l notify c newId now db input =
     (if \<not> data_valid input then (Inl validation_error, db, [])
      else
        (let p = create_post l c newId now input;
             db' = db @ [p];
             (sent, effects) = notify p (user_name (session_user c))
         in case sent of
              Inl e \<Rightarrow> (Inl e, db', StoreCreate p # effects)
            | Inr _ \<Rightarrow> (Inr p, db', StoreCreate p # effects)))"

subsection \<open>edit and delete\<close>

definition postBelongsToUser :: "ctx \<Rightarrow> post list \<Rightarrow> int \<Rightarrow> bool" where
  \<comment> \<open>\<open>post?.author.id === ctx.session.user.id\<close>, after \<open>findUnique\<close>: false when no post
     has the id\<close>
  "postBelongsToUser c db i =
     (case findUnique db i of
        None \<Rightarrow> False
      | Some p \<Rightarrow> authorId p = user_id (session_user c))"

definition forbidden :: trpc_error where
  "forbidden = \<lparr>err_code = FORBIDDEN, err_message = None\<rparr>"

definition edit ::
  "libs \<Rightarrow> ctx \<Rightarrow> post list \<Rightarrow> int \<Rightarrow> post_data \<Rightarrow> (trpc_error + post) \<times> post list" where
  "edit l c db i d =
     (if \<not> data_valid d then (Inl validation_error, db)
      else if \<not> postBelongsToUser c db i then (Inl forbidden, db)
      else
        (case update_post db i
                (\<lambda>p. p\<lparr>title := pd_title d, content := pd_content d,
                        contentHtml := markdownToHtml l (pd_content d)\<rparr>) of
           None \<Rightarrow> (Inl store_error, db)
         | Some (updatedPost, db') \<Rightarrow> (Inr updatedPost, db')))"

definition delete :: "ctx \<Rightarrow> post list \<Rightarrow> int \<Rightarrow> (trpc_error + int) \<times> post list" where
  "delete c db i =
     (if \<not> postBelongsToUser c db i then (Inl forbidden, db)
      else
        (case delete_post db i of
           None \<Rightarrow> (Inl store_error, db)
         | Some db' \<Rightarrow> (Inr i, db')))"

subsection \<open>hide and unhide\<close>

definition set_hidden :: "bool \<Rightarrow> ctx \<Rightarrow> post list \<Rightarrow> int \<Rightarrow> (trpc_error + int) \<times> post list" where
  "set_hidden h c db i =
     (if \<not> isUserAdmin c then (Inl forbidden, db)
      else
        (case update_post db i (\<lambda>p. p\<lparr>hidden := h\<rparr>) of
           None \<Rightarrow> (Inl store_error, db)
         | Some (p, db') \<Rightarrow> (Inr (post_id p), db')))"

definition hide :: "ctx \<Rightarrow> post list \<Rightarrow> int \<Rightarrow> (trpc_error + int) \<times> post list" where
  "hide = set_hidden True"

definition unhide :: "ctx \<Rightarrow> post list \<Rightarrow> int \<Rightarrow> (trpc_error + int) \<times> post list" where
  "unhide = set_hidden False"

subsection \<open>The invariant of the rendered content\<close>

text \<open>
  The rendered HTML of a post is the rendering of its content, in the words of the data
  model.
\<close>

definition rendered :: "libs \<Rightarrow> post \<Rightarrow> bool" where
  "rendered l p = (contentHtml p = markdownToHtml l (content p))"

section \<open>Sample data\<close>

text \<open>
  Two users, a table of three posts (the second one hidden), a request body, a stand-in
  for the two rendering libraries, a full-text match that looks for the query as a
  substring of a column, a webhook that is down, and an upload whose file name holds a
  doubled dollar sign. The theorems below are instantiated with them.
\<close>

definition alice :: user where
  "alice = \<lparr>user_id = ''u-alice'', user_name = ''Alice'', user_image = ''alice.png''\<rparr>"
definition bob :: user where
  "bob = \<lparr>user_id = ''u-bob'', user_name = ''Bob'', user_image = ''bob.png''\<rparr>"
definition sample_post :: "int \<Rightarrow> user \<Rightarrow> int \<Rightarrow> bool \<Rightarrow> post" where
  "sample_post i u t h =
     \<lparr> post_id = i, title = ''T'', content = ''C'', contentHtml = ''<p>C</p>'',
       createdAt = t, hidden = h, author = u, likedBy = [], comments = [] \<rparr>"
definition sample_db :: "post list" where
  "sample_db = [sample_post 1 alice 100 False, sample_post 2 bob 300 True,
                sample_post 3 bob 200 False]"
definition as_user :: "user \<Rightarrow> ctx" where
  "as_user u = \<lparr>session_user = u, isUserAdmin = False\<rparr>"
definition as_admin :: "user \<Rightarrow> ctx" where
  "as_admin u = \<lparr>session_user = u, isUserAdmin = True\<rparr>"

definition sample_data :: post_data where
  "sample_data = \<lparr>pd_title = ''New title'', pd_content = ''New *content*''\<rparr>"

definition sample_libs :: libs where
  "sample_libs =
     \<lparr> marked_parse = (\<lambda>breaks markdown. ''<p>'' @ markdown @ ''</p>''),
       sanitize = filter (\<lambda>c. c \<noteq> CHR ''!'') \<rparr>"

definition sample_fts :: "string \<Rightarrow> string list \<Rightarrow> bool" where
  "sample_fts q cols = list_ex (\<lambda>col. indexOf col q \<noteq> None) cols"

definition slack_down :: slack where
  "slack_down = \<lparr>slack_enabled = True, slack_webhook = (\<lambda>p authorName. UpstreamFailure ''timeout'')\<rparr>"

definition cash_upload :: uploaded_image where
  "cash_upload = \<lparr> url = ''https://cdn.example/i/1.png'', width = 100,
                    originalFilename = ''cash$$.png'', dpi = None \<rparr>"

section \<open>Trigger detection: the word before the caret\<close>

lemma split_at_not_Nil: "split_at sep s \<noteq> []"
  by (induction s) (auto split: list.splits)

lemma split_at_no_sep:
  "(\<forall>c \<in> set s. \<not> sep c) \<Longrightarrow> split_at sep s = [s]"
  by (induction s) auto

lemma split_at_single:
  "split_at sep s = [t] \<Longrightarrow> (\<forall>c \<in> set s. \<not> sep c)"
  using split_at_not_Nil
  by (induction s arbitrary: t) (auto split: if_splits list.splits)

lemma last_word_Cons:
  "last_word (c # cs) =
     (if \<forall>x \<in> set cs. \<not> isspace x then (if isspace c then cs else c # cs)
      else last_word cs)"
proof (cases "\<forall>x \<in> set cs. \<not> isspace x")
  case True
  then have "takeWhile (\<lambda>c. \<not> isspace c) (rev cs @ [c]) =
      rev cs @ takeWhile (\<lambda>c. \<not> isspace c) [c]"
    by (intro takeWhile_append2) simp
  then show ?thesis using True by (simp add: last_word_def)
next
  case False
  then obtain x where "x \<in> set (rev cs)" "\<not> \<not> isspace x" by auto
  then have "takeWhile (\<lambda>c. \<not> isspace c) (rev cs @ [c]) =
      takeWhile (\<lambda>c. \<not> isspace c) (rev cs)"
    by (rule takeWhile_append1)
  then show ?thesis using False by (auto simp add: last_word_def)
qed

lemma last_split_at_isspace: "last (split_at isspace s) = last_word s"
proof (induction s)
  case Nil
  show ?case by (simp add: last_word_def)
next
  case (Cons c cs)
  show ?case
  proof (cases "\<forall>x \<in> set cs. \<not> isspace x")
    case True
    then show ?thesis
      by (simp add: last_word_Cons split_at_no_sep)
  next
    case False
    obtain t ts where ts: "split_at isspace cs = t # ts"
      using split_at_not_Nil by (cases "split_at isspace cs") auto
    have "ts \<noteq> []"
      using False ts split_at_single by blast
    then show ?thesis
      using False Cons.IH ts by (auto simp add: last_word_Cons)
  qed
qed

lemma last_word_suffix: "\<exists>pre. s = pre @ last_word s"
proof -
  have "rev s = takeWhile (\<lambda>c. \<not> isspace c) (rev s) @ dropWhile (\<lambda>c. \<not> isspace c) (rev s)"
    by simp
  then have "s = rev (dropWhile (\<lambda>c. \<not> isspace c) (rev s)) @ last_word s"
    unfolding last_word_def by (metis rev_append rev_rev_ident)
  then show ?thesis ..
qed

lemma endsWith_last_word: "endsWith s (last_word s)"
proof -
  obtain pre where p: "s = pre @ last_word s" using last_word_suffix by blast
  have "length (last_word s) \<le> length s"
    by (metis p length_append le_add2)
  moreover have "drop (length s - length (last_word s)) s = last_word s"
    by (metis p add_diff_cancel_right' append_eq_conv_conj length_append)
  ultimately show ?thesis by (simp add: endsWith_def)
qed

lemma last_word_no_space: "\<forall>c \<in> set (last_word s). \<not> isspace c"
  by (auto simp: last_word_def dest: set_takeWhileD)

lemma getSuggestionData_last_word:
  fixes textareaEl :: textarea
  defines "tbc \<equiv> take (selectionStart textareaEl) (ta_value textareaEl)"
  shows "getSuggestionData textareaEl =
     \<lparr> keystrokeTriggered =
          (take 1 (last_word tbc) = ''@'' \<or> take 1 (last_word tbc) = '':''),
        triggerIdx = int (length tbc) - int (length (last_word tbc)),
        suggestionType = (if take 1 (last_word tbc) = ''@'' then Mention else Emoji),
        query = drop 1 (last_word tbc) \<rparr>"
proof -
  obtain pre where pre: "tbc = pre @ last_word tbc"
    using last_word_suffix by blast
  have len: "int (length tbc) - int (length (last_word tbc)) = int (length pre)"
    by (metis pre length_append of_nat_add add_diff_cancel_right')
  have at: "char_at tbc (int (length pre)) =
      (case last_word tbc of [] \<Rightarrow> None | c # _ \<Rightarrow> Some c)"
  proof (cases "last_word tbc")
    case Nil
    then have "tbc = pre" using pre by simp
    then show ?thesis using Nil by (simp add: char_at_def)
  next
    case (Cons c cs)
    then have "tbc = pre @ c # cs" using pre by simp
    then show ?thesis using Cons by (simp add: char_at_def)
  qed
  have sl: "slice_from tbc (int (length pre) + 1) = drop 1 (last_word tbc)"
  proof -
    have "nat (min (int (length pre) + 1) (int (length tbc))) = min (length pre + 1) (length tbc)"
      by linarith
    moreover have "drop (min (length pre + 1) (length tbc)) tbc = drop (length pre + 1) tbc"
      by (cases "length pre + 1 \<le> length tbc") (simp_all add: min_def)
    moreover have "drop (length pre + 1) tbc = drop 1 (last_word tbc)"
      by (metis pre add.commute append_eq_conv_conj drop_drop)
    ultimately show ?thesis
      by (simp add: slice_from_def Let_def)
  qed
  have "getSuggestionData textareaEl =
     \<lparr> keystrokeTriggered =
          (char_at tbc (int (length pre)) = Some (CHR ''@'') \<or>
           char_at tbc (int (length pre)) = Some (CHR '':'')),
        triggerIdx = int (length pre),
        suggestionType =
          (if char_at tbc (int (length pre)) = Some (CHR ''@'') then Mention else Emoji),
        query = slice_from tbc (int (length pre) + 1) \<rparr>"
    using len endsWith_last_word [of tbc]
    by (simp add: getSuggestionData_def Let_def last_split_at_isspace tbc_def)
  then show ?thesis
    by (simp add: at sl len split: list.splits)
qed

text \<open>
  C8. Trigger detection is a function of the text and the caret offset alone. It takes
  the word before the caret, cut at the nearest whitespace, and classifies it by its
  first character: a trigger is active exactly when the word starts with \<open>@\<close> (a mention)
  or \<open>:\<close> (an emoji), the trigger index is the offset at which the word starts and the
  query is the word without its first character. With the caret at the end, the text
  \<open>hello @al\<close> gives an active mention trigger with query \<open>al\<close> and index 6, the text
  \<open>type :sm\<close> an active emoji trigger with query \<open>sm\<close>, and the text \<open>no trigger here\<close>
  no active trigger.
\<close>

theorem getSuggestionData_trigger_detection:
  "getSuggestionData \<lparr>ta_value = v, selectionStart = caret\<rparr> =
     \<lparr> keystrokeTriggered =
          (take 1 (last_word (take caret v)) = ''@'' \<or> take 1 (last_word (take caret v)) = '':''),
        triggerIdx = int (length (take caret v)) - int (length (last_word (take caret v))),
        suggestionType =
          (if take 1 (last_word (take caret v)) = ''@'' then Mention else Emoji),
        query = drop 1 (last_word (take caret v)) \<rparr>
   \<and> getSuggestionData \<lparr>ta_value = ''hello @al'', selectionStart = length ''hello @al''\<rparr> =
       \<lparr>keystrokeTriggered = True, triggerIdx = 6, suggestionType = Mention, query = ''al''\<rparr>
   \<and> getSuggestionData \<lparr>ta_value = ''type :sm'', selectionStart = length ''type :sm''\<rparr> =
       \<lparr>keystrokeTriggered = True, triggerIdx = 5, suggestionType = Emoji, query = ''sm''\<rparr>
   \<and> keystrokeTriggered
         (getSuggestionData
            \<lparr>ta_value = ''no trigger here'', selectionStart = length ''no trigger here''\<rparr>) = False"
proof (intro conjI)
  show "getSuggestionData \<lparr>ta_value = v, selectionStart = caret\<rparr> =
     \<lparr> keystrokeTriggered =
          (take 1 (last_word (take caret v)) = ''@'' \<or> take 1 (last_word (take caret v)) = '':''),
        triggerIdx = int (length (take caret v)) - int (length (last_word (take caret v))),
        suggestionType =
          (if take 1 (last_word (take caret v)) = ''@'' then Mention else Emoji),
        query = drop 1 (last_word (take caret v)) \<rparr>"
    using getSuggestionData_last_word [of "\<lparr>ta_value = v, selectionStart = caret\<rparr>"] by simp
  show "getSuggestionData \<lparr>ta_value = ''hello @al'', selectionStart = length ''hello @al''\<rparr> =
       \<lparr>keystrokeTriggered = True, triggerIdx = 6, suggestionType = Mention, query = ''al''\<rparr>"
    by code_simp
  show "getSuggestionData \<lparr>ta_value = ''type :sm'', selectionStart = length ''type :sm''\<rparr> =
       \<lparr>keystrokeTriggered = True, triggerIdx = 5, suggestionType = Emoji, query = ''sm''\<rparr>"
    by code_simp
  show "keystrokeTriggered
         (getSuggestionData
            \<lparr>ta_value = ''no trigger here'', selectionStart = length ''no trigger here''\<rparr>) = False"
    by code_simp
qed

text \<open>
  C10. Whenever no trigger is active, the other fields are still filled in: the type is
  \<open>emoji\<close>, the trigger index is the offset at which the last whitespace-delimited word
  before the caret starts, and the query is the text from the offset after the trigger
  index up to the caret. For \<open>no trigger here\<close> with the caret at the end the index is 11
  and the query is \<open>ere\<close>.
\<close>

theorem getSuggestionData_inactive_fields:
  assumes "\<not> keystrokeTriggered (getSuggestionData \<lparr>ta_value = v, selectionStart = caret\<rparr>)"
  shows "suggestionType (getSuggestionData \<lparr>ta_value = v, selectionStart = caret\<rparr>) = Emoji
    \<and> triggerIdx (getSuggestionData \<lparr>ta_value = v, selectionStart = caret\<rparr>) =
        int (length (take caret v)) - int (length (last_word (take caret v)))
    \<and> 0 \<le> triggerIdx (getSuggestionData \<lparr>ta_value = v, selectionStart = caret\<rparr>)
    \<and> query (getSuggestionData \<lparr>ta_value = v, selectionStart = caret\<rparr>) =
        drop (nat (triggerIdx (getSuggestionData \<lparr>ta_value = v, selectionStart = caret\<rparr>)) + 1)
          (take caret v)"
proof -
  let ?tbc = "take caret v"
  let ?r = "getSuggestionData \<lparr>ta_value = v, selectionStart = caret\<rparr>"
  note eq = getSuggestionData_last_word [of "\<lparr>ta_value = v, selectionStart = caret\<rparr>", simplified]
  obtain pre where pre: "?tbc = pre @ last_word ?tbc"
    using last_word_suffix by blast
  have len: "int (length ?tbc) - int (length (last_word ?tbc)) = int (length pre)"
    by (metis pre length_append of_nat_add add_diff_cancel_right')
  have idx: "triggerIdx ?r = int (length ?tbc) - int (length (last_word ?tbc))"
    by (subst eq) simp
  have idx': "triggerIdx ?r = int (length pre)"
    using idx len by simp
  have "drop (length pre + 1) ?tbc = drop 1 (last_word ?tbc)"
    by (metis pre add.commute append_eq_conv_conj drop_drop)
  moreover have "query ?r = drop 1 (last_word ?tbc)"
    by (subst eq) simp
  ultimately have q: "query ?r = drop (nat (triggerIdx ?r) + 1) ?tbc"
    by (simp only: idx' nat_int)
  have "take 1 (last_word ?tbc) \<noteq> ''@''"
    using assms by (subst (asm) eq) simp
  then have ty: "suggestionType ?r = Emoji"
    by (subst eq) simp
  have "0 \<le> triggerIdx ?r"
    by (simp only: idx' of_nat_0_le_iff)
  with ty idx q show ?thesis
    by blast
qed

theorem getSuggestionData_inactive_fields_witness:
  "\<not> keystrokeTriggered
       (getSuggestionData \<lparr>ta_value = ''no trigger here'', selectionStart = 15\<rparr>)
   \<and> suggestionType
       (getSuggestionData \<lparr>ta_value = ''no trigger here'', selectionStart = 15\<rparr>) = Emoji
   \<and> triggerIdx
       (getSuggestionData \<lparr>ta_value = ''no trigger here'', selectionStart = 15\<rparr>) = 11
   \<and> query
       (getSuggestionData \<lparr>ta_value = ''no trigger here'', selectionStart = 15\<rparr>) = ''ere''"
proof -
  have h: "\<not> keystrokeTriggered
       (getSuggestionData \<lparr>ta_value = ''no trigger here'', selectionStart = 15\<rparr>)"
    by code_simp
  have t: "triggerIdx
       (getSuggestionData \<lparr>ta_value = ''no trigger here'', selectionStart = 15\<rparr>) = 11"
    by code_simp
  have d: "drop (nat 11 + 1) (take 15 ''no trigger here'') = ''ere''"
    by simp
  show ?thesis
    using getSuggestionData_inactive_fields [OF h] h t d by simp
qed

section \<open>The image upload handler\<close>

text \<open>
  Where the replacement text holds no dollar sign, \<open>replace\<close> puts it in place of the
  first occurrence of the placeholder as it is; a failed upload removes the placeholder
  and raises one toast.
\<close>

lemma getSubstitution_no_dollar:
  "CHR ''$'' \<notin> set r \<Longrightarrow> getSubstitution m f b r = r"
  by (induction m f b r rule: getSubstitution.induct) auto

lemma indexOf_Some:
  "indexOf s pat = Some p \<Longrightarrow> take (length pat) (drop p s) = pat \<and> p \<le> length s"
proof (induction s arbitrary: p)
  case Nil
  then show ?case by (simp split: if_splits)
next
  case (Cons c cs)
  then show ?case by (auto split: if_splits)
qed

lemma indexOf_None:
  "indexOf s pat = None \<Longrightarrow> take (length pat) (drop p s) \<noteq> pat"
proof (induction s arbitrary: p)
  case Nil
  then show ?case by (simp split: if_splits)
next
  case (Cons c cs)
  show ?case
  proof (cases p)
    case 0
    with Cons.prems show ?thesis by (simp split: if_splits)
  next
    case (Suc k)
    with Cons show ?thesis by (simp split: if_splits)
  qed
qed

lemma js_replace_no_dollar:
  assumes "indexOf s pat = Some p" "CHR ''$'' \<notin> set r"
  shows "js_replace s pat r = take p s @ r @ drop (p + length pat) s"
  using assms by (simp add: js_replace_def Let_def getSubstitution_no_dollar)

lemma js_replace_absent: "indexOf s pat = None \<Longrightarrow> js_replace s pat r = s"
  by (simp add: js_replace_def)

lemma js_replace_empty:
  "indexOf s pat = Some p \<Longrightarrow> js_replace s pat [] = take p s @ drop (p + length pat) s"
  by (simp add: js_replace_def Let_def)

lemma imgWidth_cases:
  "imgWidth u = (if \<exists>d. dpi u = Some d \<and> 144 \<le> d then (width u + 1) div 2 else width u)"
  by (auto simp add: imgWidth_def split: option.splits)

lemma upload_begin_single_line:
  "CHR 0x0A \<notin> set v \<Longrightarrow>
     ed_value (upload_begin (currentLineNumber \<lparr>ta_value = v, selectionStart = k\<rparr>)
        \<lparr>ed_value = v, toasts = ts, console = cs\<rparr> file_name) = placeholder file_name"
proof -
  assume a: "CHR 0x0A \<notin> set v"
  then have "filter (\<lambda>c. c = CHR 0x0A) (take k v) = []"
    by (auto simp add: filter_empty_conv dest: in_set_takeD)
  then have n: "currentLineNumber \<lparr>ta_value = v, selectionStart = k\<rparr> = 1"
    by (simp add: currentLineNumber_def)
  have "split_at (\<lambda>c. c = CHR 0x0A) v = [v]"
    using a by (intro split_at_no_sep) auto
  then show ?thesis
    by (simp add: n upload_begin_def replaceLine_def)
qed

lemma upload_settle_failure:
  "upload_settle file_name (UploadError msg) cursor =
     \<lparr> ed_value = js_replace (ed_value cursor) (placeholder file_name) [],
       toasts = toasts cursor @ [''Error uploading image: '' @ msg],
       console = console cursor @ [msg] \<rparr>"
  by (simp add: upload_settle_def replacePlaceholder_def Let_def)

text \<open>
  C9. For each uploaded file the handler puts the placeholder
  \<open>![Uploading <filename>...]()\<close> on the current line before the upload ends; on success
  the first occurrence of the placeholder is to become an \<open>img\<close> tag whose \<open>alt\<close> is the
  original file name. The evaluation below is the upload of a file named \<open>cash$$.png\<close>
  into an empty text area: the placeholder is written as stated, but the tag that
  replaces it has \<open>alt="cash$.png"\<close>, since \<open>replace\<close> reads the doubled dollar sign of
  the replacement text as a pattern.
\<close>

theorem upload_dollar_in_filename:
  \<open>uploadImageCommandHandler \<lparr>ta_value = '''', selectionStart = 0\<rparr> [''cash$$.png''] [] =
     \<lparr>ed_value = ''![Uploading cash$$.png...]()'', toasts = [], console = []\<rparr>
   \<and> imgTag cash_upload =
       ''<img width="100" alt="cash$$.png" src="https://cdn.example/i/1.png">''
   \<and> uploadImageCommandHandler \<lparr>ta_value = '''', selectionStart = 0\<rparr> [''cash$$.png'']
       [(0, Uploaded cash_upload)] =
     \<lparr>ed_value = ''<img width="100" alt="cash$.png" src="https://cdn.example/i/1.png">'',
      toasts = [], console = []\<rparr>\<close>
  by code_simp

section \<open>detail: hidden posts look like missing ones\<close>

lemma detail_cases:
  "detail c db i =
     (case findUnique db i of
        None \<Rightarrow> Inl (not_found i)
      | Some p \<Rightarrow>
          if hidden p \<and> authorId p \<noteq> user_id (session_user c) \<and> \<not> isUserAdmin c
          then Inl (not_found i) else Inr (detail_select p))"
  by (simp add: detail_def Let_def split: option.splits)

text \<open>
  C2. \<open>detail\<close> fails exactly when no post has the id, or the post is hidden and the
  caller is neither its author nor an admin. Every failure is the NotFound error whose
  message names the requested id only, so the error for a hidden post is the error any
  caller gets for an id that no post has. In every other case the post is returned.
\<close>

theorem detail_not_found:
  "(\<exists>e. detail c db i = Inl e) =
     (findUnique db i = None \<or>
      (\<exists>p. findUnique db i = Some p \<and> hidden p \<and>
           authorId p \<noteq> user_id (session_user c) \<and> \<not> isUserAdmin c))
   \<and> (\<forall>e. detail c db i = Inl e \<longrightarrow>
          e = not_found i \<and> err_code e = NOT_FOUND \<and>
          (\<forall>c' db'. findUnique db' i = None \<longrightarrow> detail c' db' i = Inl e))
   \<and> (\<forall>p. findUnique db i = Some p \<and>
            \<not> (hidden p \<and> authorId p \<noteq> user_id (session_user c) \<and> \<not> isUserAdmin c) \<longrightarrow>
          detail c db i = Inr (detail_select p))"
proof (intro conjI allI impI)
  show "(\<exists>e. detail c db i = Inl e) =
     (findUnique db i = None \<or>
      (\<exists>p. findUnique db i = Some p \<and> hidden p \<and>
           authorId p \<noteq> user_id (session_user c) \<and> \<not> isUserAdmin c))"
    by (cases "findUnique db i") (simp_all add: detail_cases)
next
  fix e assume e: "detail c db i = Inl e"
  then show "e = not_found i"
    by (cases "findUnique db i") (simp_all add: detail_cases split: if_splits)
  then show "err_code e = NOT_FOUND"
    by (simp add: not_found_def)
  fix c' db' assume "findUnique db' i = None"
  then show "detail c' db' i = Inl e"
    using \<open>e = not_found i\<close> by (simp add: detail_cases)
next
  fix p
  assume "findUnique db i = Some p \<and>
            \<not> (hidden p \<and> authorId p \<noteq> user_id (session_user c) \<and> \<not> isUserAdmin c)"
  then show "detail c db i = Inr (detail_select p)"
    by (auto simp add: detail_cases)
qed

theorem detail_not_found_witness:
  "detail (as_user alice) sample_db 2 = Inl (not_found 2)
   \<and> findUnique sample_db 2 = Some (sample_post 2 bob 300 True)
   \<and> hidden (sample_post 2 bob 300 True)
   \<and> findUnique [] 2 = None
   \<and> detail (as_user bob) [] 2 = detail (as_user alice) sample_db 2
   \<and> detail (as_user bob) sample_db 2 = Inr (detail_select (sample_post 2 bob 300 True))
   \<and> detail (as_admin alice) sample_db 2 = Inr (detail_select (sample_post 2 bob 300 True))"
proof -
  let ?p = "sample_post 2 bob 300 True"
  have f: "findUnique sample_db 2 = Some ?p"
    by (simp add: findUnique_def sample_db_def sample_post_def)
  have h: "hidden ?p"
    by (simp add: sample_post_def)
  have a: "authorId ?p \<noteq> user_id (session_user (as_user alice))"
    by (simp add: sample_post_def authorId_def as_user_def alice_def bob_def)
  have b: "authorId ?p = user_id (session_user (as_user bob))"
    by (simp add: sample_post_def authorId_def as_user_def)
  have n: "\<not> isUserAdmin (as_user alice)" "isUserAdmin (as_admin alice)"
    by (simp_all add: as_user_def as_admin_def)
  have e: "findUnique [] 2 = None"
    by (simp add: findUnique_def)
  note A = detail_not_found [of "as_user alice" sample_db 2]
  have "\<exists>e. detail (as_user alice) sample_db 2 = Inl e"
    using A [THEN conjunct1] f h a n by simp
  then obtain er where er: "detail (as_user alice) sample_db 2 = Inl er" ..
  have er': "er = not_found 2"
    using A [THEN conjunct2, THEN conjunct1, rule_format, OF er] by simp
  have 2: "detail (as_user bob) [] 2 = Inl er"
    using A [THEN conjunct2, THEN conjunct1, rule_format, OF er] e by blast
  have 3: "detail (as_user bob) sample_db 2 = Inr (detail_select ?p)"
    using detail_not_found [of "as_user bob" sample_db 2, THEN conjunct2, THEN conjunct2,
        rule_format, of ?p] f b by simp
  have 4: "detail (as_admin alice) sample_db 2 = Inr (detail_select ?p)"
    using detail_not_found [of "as_admin alice" sample_db 2, THEN conjunct2, THEN conjunct2,
        rule_format, of ?p] f n by simp
  show ?thesis using er er' 2 3 4 f h e by simp
qed

section \<open>edit and delete: only the author\<close>

lemma edit_forbidden_unchanged:
  "fst (edit l c db i d) = Inl forbidden \<Longrightarrow> snd (edit l c db i d) = db"
  by (auto simp add: edit_def forbidden_def store_error_def validation_error_def
      split: if_splits option.splits prod.splits)

lemma edit_error_unchanged:
  "fst (edit l c db i d) = Inl e \<Longrightarrow> snd (edit l c db i d) = db"
  by (auto simp add: edit_def split: if_splits option.splits prod.splits)

lemma postBelongsToUser_iff:
  "postBelongsToUser c db i =
     (\<exists>p. findUnique db i = Some p \<and> authorId p = user_id (session_user c))"
  by (simp add: postBelongsToUser_def split: option.splits)

text \<open>
  C3. When the caller is not the author of the post with the given id, which includes
  the case that no post has the id, \<open>edit\<close> (on data that passes the input schema) and
  \<open>delete\<close> fail with Forbidden, not NotFound. \<open>edit\<close> then fails on any data and leaves
  the table as it was, so the title, the content and the rendered content of every
  post are unchanged.
\<close>

theorem edit_delete_forbidden:
  assumes "\<forall>p. findUnique db i = Some p \<longrightarrow> authorId p \<noteq> user_id (session_user c)"
  shows "(data_valid d \<longrightarrow> edit l c db i d = (Inl forbidden, db))
    \<and> delete c db i = (Inl forbidden, db)
    \<and> err_code forbidden = FORBIDDEN
    \<and> (\<exists>e. fst (edit l c db i d) = Inl e)
    \<and> snd (edit l c db i d) = db
    \<and> findUnique (snd (edit l c db i d)) = findUnique db"
proof -
  have nb: "\<not> postBelongsToUser c db i"
    using assms by (simp add: postBelongsToUser_iff)
  have 1: "data_valid d \<longrightarrow> edit l c db i d = (Inl forbidden, db)"
    using nb by (simp add: edit_def)
  have 2: "delete c db i = (Inl forbidden, db)"
    using nb by (simp add: delete_def)
  have 3: "err_code forbidden = FORBIDDEN"
    by (simp add: forbidden_def)
  have 4: "\<exists>e. fst (edit l c db i d) = Inl e"
    using nb by (simp add: edit_def)
  then have 5: "snd (edit l c db i d) = db"
    using edit_error_unchanged by blast
  show ?thesis using 1 2 3 4 5 by simp
qed

theorem edit_delete_forbidden_witness:
  "findUnique sample_db 2 = Some (sample_post 2 bob 300 True)
   \<and> findUnique sample_db 9 = None
   \<and> data_valid sample_data
   \<and> edit sample_libs (as_user alice) sample_db 2 sample_data = (Inl forbidden, sample_db)
   \<and> delete (as_user alice) sample_db 2 = (Inl forbidden, sample_db)
   \<and> edit sample_libs (as_user alice) sample_db 9 sample_data = (Inl forbidden, sample_db)
   \<and> delete (as_user alice) sample_db 9 = (Inl forbidden, sample_db)"
proof -
  let ?p = "sample_post 2 bob 300 True"
  have f: "findUnique sample_db 2 = Some ?p"
    by (simp add: findUnique_def sample_db_def sample_post_def)
  have g: "findUnique sample_db 9 = None"
    by (simp add: findUnique_def sample_db_def sample_post_def)
  have a: "authorId ?p \<noteq> user_id (session_user (as_user alice))"
    by (simp add: sample_post_def authorId_def as_user_def alice_def bob_def)
  have v: "data_valid sample_data"
    by (simp add: data_valid_def sample_data_def)
  have h2: "\<forall>p. findUnique sample_db 2 = Some p \<longrightarrow>
      authorId p \<noteq> user_id (session_user (as_user alice))"
    using f a by simp
  have h9: "\<forall>p. findUnique sample_db 9 = Some p \<longrightarrow>
      authorId p \<noteq> user_id (session_user (as_user alice))"
    using g by simp
  show ?thesis
    using edit_delete_forbidden [OF h2, of sample_data sample_libs]
      edit_delete_forbidden [OF h9, of sample_data sample_libs] f g v
    by simp
qed

section \<open>search\<close>

lemma search_valid:
  "q \<noteq> [] \<Longrightarrow> search fts c db q =
     Inr (map (\<lambda>p. \<lparr>hit_id = post_id p, hit_title = title p\<rparr>)
            (take 10 (filter (\<lambda>p. hidden p = False \<and> fts q [title p, content p]) db)))"
  by (cases q) (simp_all add: search_def)

text \<open>
  C4. For a query that is not empty, \<open>search\<close> succeeds and returns at most 10 hits, each
  the id and the title of a post of the table that is not hidden and matches the query
  under the store's full-text search over title and content: the first ten such posts
  in the order of the store, and all of them when there are at most ten. The result does
  not depend on the caller, so an admin sees no hidden post either.
\<close>

theorem search_results:
  assumes "q \<noteq> []"
  shows "\<exists>hits. search fts c db q = Inr hits
    \<and> length hits \<le> 10
    \<and> hits = map (\<lambda>p. \<lparr>hit_id = post_id p, hit_title = title p\<rparr>)
               (take 10 (filter (\<lambda>p. \<not> hidden p \<and> fts q [title p, content p]) db))
    \<and> (\<forall>h \<in> set hits. \<exists>p \<in> set db. h = \<lparr>hit_id = post_id p, hit_title = title p\<rparr>
            \<and> \<not> hidden p \<and> fts q [title p, content p])
    \<and> (length (filter (\<lambda>p. \<not> hidden p \<and> fts q [title p, content p]) db) \<le> 10 \<longrightarrow>
          (\<forall>p \<in> set db. \<not> hidden p \<and> fts q [title p, content p] \<longrightarrow>
             \<lparr>hit_id = post_id p, hit_title = title p\<rparr> \<in> set hits))
    \<and> search fts c' db q = Inr hits"
proof -
  let ?m = "filter (\<lambda>p. \<not> hidden p \<and> fts q [title p, content p]) db"
  let ?sel = "\<lambda>p. \<lparr>hit_id = post_id p, hit_title = title p\<rparr>"
  let ?hits = "map ?sel (take 10 ?m)"
  have s: "search fts c db q = Inr ?hits" "search fts c' db q = Inr ?hits"
    using assms by (simp_all add: search_valid)
  have l: "length ?hits \<le> 10"
    by simp
  have sub: "set (take 10 ?m) \<subseteq> set ?m"
    by (rule set_take_subset)
  have each: "\<forall>h \<in> set ?hits. \<exists>p \<in> set db. h = ?sel p
            \<and> \<not> hidden p \<and> fts q [title p, content p]"
  proof
    fix h assume "h \<in> set ?hits"
    then obtain p where "p \<in> set (take 10 ?m)" "h = ?sel p" by auto
    with sub have "p \<in> set ?m" by blast
    with \<open>h = ?sel p\<close> show "\<exists>p \<in> set db. h = ?sel p
            \<and> \<not> hidden p \<and> fts q [title p, content p]"
      by auto
  qed
  have all: "length ?m \<le> 10 \<longrightarrow>
          (\<forall>p \<in> set db. \<not> hidden p \<and> fts q [title p, content p] \<longrightarrow> ?sel p \<in> set ?hits)"
  proof (intro impI ballI)
    fix p assume "length ?m \<le> 10" "p \<in> set db" "\<not> hidden p \<and> fts q [title p, content p]"
    then have "take 10 ?m = ?m" "p \<in> set ?m" by simp_all
    then show "?sel p \<in> set ?hits" by simp
  qed
  show ?thesis
  proof (rule exI [of _ ?hits], intro conjI)
    show "search fts c db q = Inr ?hits" by (rule s(1))
    show "length ?hits \<le> 10" by (rule l)
    show "?hits = ?hits" by (rule refl)
    show "\<forall>h \<in> set ?hits. \<exists>p \<in> set db. h = ?sel p
            \<and> \<not> hidden p \<and> fts q [title p, content p]" by (rule each)
    show "length ?m \<le> 10 \<longrightarrow>
          (\<forall>p \<in> set db. \<not> hidden p \<and> fts q [title p, content p] \<longrightarrow> ?sel p \<in> set ?hits)"
      by (rule all)
    show "search fts c' db q = Inr ?hits" by (rule s(2))
  qed
qed

theorem search_results_witness:
  "''C'' \<noteq> []
   \<and> search sample_fts (as_user alice) sample_db ''C'' =
        Inr [\<lparr>hit_id = 1, hit_title = ''T''\<rparr>, \<lparr>hit_id = 3, hit_title = ''T''\<rparr>]
   \<and> search sample_fts (as_admin alice) sample_db ''C'' =
        Inr [\<lparr>hit_id = 1, hit_title = ''T''\<rparr>, \<lparr>hit_id = 3, hit_title = ''T''\<rparr>]
   \<and> search sample_fts (as_admin alice) sample_db ''zebra'' = Inr []"
proof -
  have q: "''C'' \<noteq> []" by simp
  obtain hits where h: "search sample_fts (as_user alice) sample_db ''C'' = Inr hits"
    and h': "search sample_fts (as_admin alice) sample_db ''C'' = Inr hits"
    and hs: "hits = map (\<lambda>p. \<lparr>hit_id = post_id p, hit_title = title p\<rparr>)
               (take 10 (filter (\<lambda>p. \<not> hidden p \<and> sample_fts ''C'' [title p, content p])
                  sample_db))"
    using search_results [OF q, of sample_fts "as_user alice" sample_db "as_admin alice"]
    by blast
  have "hits = [\<lparr>hit_id = 1, hit_title = ''T''\<rparr>, \<lparr>hit_id = 3, hit_title = ''T''\<rparr>]"
    unfolding hs by (simp add: sample_db_def sample_post_def sample_fts_def)
  moreover have "search sample_fts (as_admin alice) sample_db ''zebra'' = Inr []"
    by (simp add: search_def sample_db_def sample_post_def sample_fts_def)
  ultimately show ?thesis
    using h h' by simp
qed

section \<open>The rendered content follows the content\<close>

lemma update_post_Some:
  "update_post db i f = Some (q, db') \<Longrightarrow>
     \<exists>p \<in> set db. post_id p = i \<and> q = f p \<and> q \<in> set db' \<and> set db' \<subseteq> insert q (set db)"
proof (induction db arbitrary: db')
  case Nil
  then show ?case by simp
next
  case (Cons a db)
  show ?case
  proof (cases "post_id a = i")
    case True
    with Cons.prems show ?thesis by auto
  next
    case False
    with Cons.prems obtain ps' where u: "update_post db i f = Some (q, ps')" and d: "db' = a # ps'"
      by auto
    from Cons.IH [OF u] d show ?thesis by auto
  qed
qed

lemma update_post_findUnique:
  "update_post db i f = Some (q, db') \<Longrightarrow> (\<And>p. post_id (f p) = post_id p) \<Longrightarrow>
     findUnique db' i = Some q"
proof (induction db arbitrary: db')
  case Nil
  then show ?case by simp
next
  case (Cons a db)
  show ?case
  proof (cases "post_id a = i")
    case True
    with Cons.prems show ?thesis by (auto simp: findUnique_def)
  next
    case False
    with Cons.prems(1) obtain ps' where u: "update_post db i f = Some (q, ps')" and d: "db' = a # ps'"
      by auto
    from Cons.IH [OF u Cons.prems(2)] d False show ?thesis by (simp add: findUnique_def)
  qed
qed

lemma update_post_exists:
  "findUnique db i = Some p \<Longrightarrow> \<exists>q db'. update_post db i f = Some (q, db')"
  by (induction db) (auto simp: findUnique_def split: if_splits)

lemma delete_post_subset:
  "delete_post db i = Some db' \<Longrightarrow> set db' \<subseteq> set db"
  by (induction db arbitrary: db') (auto split: if_splits)

lemma add_store:
  "fst (snd (add l notify c newId now db d)) =
     (if data_valid d then db @ [create_post l c newId now d] else db)"
  by (simp add: add_def Let_def split: prod.splits sum.splits)

lemma add_Inr:
  "add l notify c newId now db d = (Inr p, db', ef) \<Longrightarrow>
     data_valid d \<and> p = create_post l c newId now d \<and> db' = db @ [p]"
  by (auto simp add: add_def Let_def split: if_splits prod.splits sum.splits)

lemma rendered_create_post: "rendered l (create_post l c newId now d)"
  by (simp add: rendered_def create_post_def)

lemma edit_Inr:
  assumes "edit l c db i d = (Inr p, db')"
  shows "data_valid d \<and> postBelongsToUser c db i
    \<and> update_post db i (\<lambda>p. p\<lparr>title := pd_title d, content := pd_content d,
                        contentHtml := markdownToHtml l (pd_content d)\<rparr>) = Some (p, db')"
  using assms by (auto simp add: edit_def split: if_splits option.splits)

lemma edit_store_cases:
  "snd (edit l c db i d) = db \<or>
   (\<exists>p. update_post db i (\<lambda>p. p\<lparr>title := pd_title d, content := pd_content d,
                        contentHtml := markdownToHtml l (pd_content d)\<rparr>) = Some (p, snd (edit l c db i d)))"
  by (auto simp add: edit_def split: if_splits option.splits)

lemma delete_store_cases:
  "snd (delete c db i) = db \<or> delete_post db i = Some (snd (delete c db i))"
  by (auto simp add: delete_def split: if_splits option.splits)

lemma set_hidden_store_cases:
  "snd (set_hidden h c db i) = db \<or>
   (\<exists>p. update_post db i (\<lambda>p. p\<lparr>hidden := h\<rparr>) = Some (p, snd (set_hidden h c db i)))"
  by (auto simp add: set_hidden_def split: if_splits option.splits)

lemma update_post_preserves:
  assumes "update_post db i f = Some (q, db')" "\<forall>p \<in> set db. P p" "\<And>p. P p \<Longrightarrow> P (f p)"
  shows "\<forall>p \<in> set db'. P p"
proof -
  from update_post_Some [OF assms(1)] obtain p where
    p: "p \<in> set db" "q = f p" "set db' \<subseteq> insert q (set db)" by blast
  then have "P q" using assms(2,3) by blast
  then show ?thesis using p(3) assms(2) by blast
qed

lemma edit_preserves_rendered:
  assumes "\<forall>p \<in> set db. rendered l p"
  shows "\<forall>p \<in> set (snd (edit l c db i d)). rendered l p"
proof -
  let ?f = "\<lambda>p. p\<lparr>title := pd_title d, content := pd_content d,
                        contentHtml := markdownToHtml l (pd_content d)\<rparr>"
  have f: "\<And>p. rendered l (?f p)" by (simp add: rendered_def)
  from edit_store_cases [of l c db i d] show ?thesis
  proof
    assume "snd (edit l c db i d) = db"
    then show ?thesis using assms by simp
  next
    assume "\<exists>p. update_post db i ?f = Some (p, snd (edit l c db i d))"
    then obtain q where "update_post db i ?f = Some (q, snd (edit l c db i d))" ..
    from update_post_Some [OF this] f assms show ?thesis by blast
  qed
qed

lemma set_hidden_preserves_rendered:
  assumes "\<forall>p \<in> set db. rendered l p"
  shows "\<forall>p \<in> set (snd (set_hidden h c db i)). rendered l p"
proof -
  from set_hidden_store_cases [of h c db i] show ?thesis
  proof
    assume "snd (set_hidden h c db i) = db"
    then show ?thesis using assms by simp
  next
    assume "\<exists>p. update_post db i (\<lambda>p. p\<lparr>hidden := h\<rparr>) = Some (p, snd (set_hidden h c db i))"
    then obtain q where
      u: "update_post db i (\<lambda>p. p\<lparr>hidden := h\<rparr>) = Some (q, snd (set_hidden h c db i))" ..
    show ?thesis
      by (rule update_post_preserves [OF u assms]) (simp add: rendered_def)
  qed
qed

lemma delete_preserves_rendered:
  assumes "\<forall>p \<in> set db. rendered l p"
  shows "\<forall>p \<in> set (snd (delete c db i)). rendered l p"
  using delete_store_cases [of c db i] delete_post_subset assms by (metis subsetD)

lemma add_preserves_rendered:
  assumes "\<forall>p \<in> set db. rendered l p"
  shows "\<forall>p \<in> set (fst (snd (add l notify c newId now db d))). rendered l p"
  using assms by (simp add: add_store rendered_create_post)

text \<open>
  C5. The post that a successful \<open>add\<close> returns and appends to the table has the content
  of the request and, as rendered content, \<open>markdownToHtml\<close> of that content. The post
  that a successful \<open>edit\<close> returns is the row of the table with that id afterwards, and
  it too has the content of the request and its rendering. No procedure sets the
  rendered content on its own: when it is the rendering of the content for every post
  of the table, it still is after \<open>add\<close>, \<open>edit\<close>, \<open>delete\<close>, \<open>hide\<close> and \<open>unhide\<close>, whatever
  their outcome.
\<close>

theorem contentHtml_is_rendered_content:
  "(\<forall>p db' ef. add l notify c newId now db d = (Inr p, db', ef) \<longrightarrow>
       content p = pd_content d \<and> contentHtml p = markdownToHtml l (content p)
       \<and> db' = db @ [p])
   \<and> (\<forall>p db'. edit l c db i d = (Inr p, db') \<longrightarrow>
       content p = pd_content d \<and> contentHtml p = markdownToHtml l (content p)
       \<and> findUnique db' i = Some p)
   \<and> ((\<forall>p \<in> set db. rendered l p) \<longrightarrow>
        (\<forall>p \<in> set (fst (snd (add l notify c newId now db d))). rendered l p)
        \<and> (\<forall>p \<in> set (snd (edit l c db i d)). rendered l p)
        \<and> (\<forall>p \<in> set (snd (delete c db i)). rendered l p)
        \<and> (\<forall>p \<in> set (snd (hide c db i)). rendered l p)
        \<and> (\<forall>p \<in> set (snd (unhide c db i)). rendered l p))"
proof (intro conjI allI impI)
  fix p db' ef
  assume a: "add l notify c newId now db d = (Inr p, db', ef)"
  from add_Inr [OF a] have p: "p = create_post l c newId now d" and d: "db' = db @ [p]"
    by simp_all
  show "content p = pd_content d" by (simp add: p create_post_def)
  show "contentHtml p = markdownToHtml l (content p)" by (simp add: p create_post_def)
  show "db' = db @ [p]" by (rule d)
next
  fix p db'
  assume e: "edit l c db i d = (Inr p, db')"
  let ?f = "\<lambda>p. p\<lparr>title := pd_title d, content := pd_content d,
                        contentHtml := markdownToHtml l (pd_content d)\<rparr>"
  from edit_Inr [OF e] have u: "update_post db i ?f = Some (p, db')" by simp
  from update_post_Some [OF u] obtain p0 where p: "p = ?f p0" by blast
  show "content p = pd_content d" by (simp add: p)
  show "contentHtml p = markdownToHtml l (content p)" by (simp add: p)
  show "findUnique db' i = Some p"
    by (rule update_post_findUnique [OF u]) simp
next
  assume inv: "\<forall>p \<in> set db. rendered l p"
  show "\<forall>p \<in> set (fst (snd (add l notify c newId now db d))). rendered l p"
    by (rule add_preserves_rendered [OF inv])
  show "\<forall>p \<in> set (snd (edit l c db i d)). rendered l p"
    by (rule edit_preserves_rendered [OF inv])
  show "\<forall>p \<in> set (snd (delete c db i)). rendered l p"
    by (rule delete_preserves_rendered [OF inv])
  show "\<forall>p \<in> set (snd (hide c db i)). rendered l p"
    unfolding hide_def by (rule set_hidden_preserves_rendered [OF inv])
  show "\<forall>p \<in> set (snd (unhide c db i)). rendered l p"
    unfolding unhide_def by (rule set_hidden_preserves_rendered [OF inv])
qed

theorem contentHtml_is_rendered_content_witness:
  "data_valid sample_data
   \<and> list_all (rendered sample_libs) sample_db
   \<and> add sample_libs (postToSlackIfEnabled slack_down) (as_user alice) 4 400 sample_db sample_data =
        (Inr (create_post sample_libs (as_user alice) 4 400 sample_data),
         sample_db @ [create_post sample_libs (as_user alice) 4 400 sample_data],
         [StoreCreate (create_post sample_libs (as_user alice) 4 400 sample_data),
          SlackPost (create_post sample_libs (as_user alice) 4 400 sample_data) ''Alice'',
          Logged ''timeout''])
   \<and> content (create_post sample_libs (as_user alice) 4 400 sample_data) = ''New *content*''
   \<and> contentHtml (create_post sample_libs (as_user alice) 4 400 sample_data) =
        ''<p>New *content*</p>''
   \<and> (\<exists>p db'. edit sample_libs (as_user bob) sample_db 3 sample_data = (Inr p, db')
         \<and> findUnique db' 3 = Some p \<and> content p = ''New *content*''
         \<and> contentHtml p = ''<p>New *content*</p>'')
   \<and> list_all (rendered sample_libs)
        (fst (snd (add sample_libs (postToSlackIfEnabled slack_down) (as_user alice) 4 400
           sample_db sample_data)))
   \<and> list_all (rendered sample_libs) (snd (edit sample_libs (as_user bob) sample_db 3 sample_data))
   \<and> list_all (rendered sample_libs) (snd (delete (as_user bob) sample_db 3))
   \<and> list_all (rendered sample_libs) (snd (hide (as_admin alice) sample_db 3))
   \<and> list_all (rendered sample_libs) (snd (unhide (as_admin alice) sample_db 2))"
proof -
  let ?p = "create_post sample_libs (as_user alice) 4 400 sample_data"
  let ?add = "add sample_libs (postToSlackIfEnabled slack_down) (as_user alice) 4 400
      sample_db sample_data"
  note T = contentHtml_is_rendered_content [of sample_libs "postToSlackIfEnabled slack_down"
      "as_user alice" 4 400 sample_db sample_data]
  note U = contentHtml_is_rendered_content [of sample_libs "postToSlackIfEnabled slack_down"
      "as_user bob" 4 400 sample_db sample_data 3]
  note V = contentHtml_is_rendered_content [of sample_libs "postToSlackIfEnabled slack_down"
      "as_admin alice" 4 400 sample_db sample_data 3]
  note W = contentHtml_is_rendered_content [of sample_libs "postToSlackIfEnabled slack_down"
      "as_admin alice" 4 400 sample_db sample_data 2]
  have v: "data_valid sample_data"
    by (simp add: data_valid_def sample_data_def)
  have r: "markdownToHtml sample_libs ''New *content*'' = ''<p>New *content*</p>''"
    by (simp add: markdownToHtml_def sample_libs_def)
  have inv: "\<forall>p \<in> set sample_db. rendered sample_libs p"
    by (simp add: sample_db_def sample_post_def rendered_def markdownToHtml_def sample_libs_def)
  have a: "?add = (Inr ?p, sample_db @ [?p],
      [StoreCreate ?p, SlackPost ?p ''Alice'', Logged ''timeout''])"
    using v by (simp add: add_def Let_def postToSlackIfEnabled_def slack_down_def as_user_def
        alice_def)
  have a1: "content ?p = pd_content sample_data"
    and a2: "contentHtml ?p = markdownToHtml sample_libs (content ?p)"
    using T [THEN conjunct1, rule_format, OF a] by simp_all
  have pd: "pd_content sample_data = ''New *content*''"
    by (simp add: sample_data_def)
  have b: "postBelongsToUser (as_user bob) sample_db 3"
    by (simp add: postBelongsToUser_def findUnique_def sample_db_def sample_post_def
        authorId_def as_user_def)
  have f3: "findUnique sample_db 3 = Some (sample_post 3 bob 200 False)"
    by (simp add: findUnique_def sample_db_def sample_post_def)
  obtain q db' where u: "update_post sample_db 3
      (\<lambda>p. p\<lparr>title := pd_title sample_data, content := pd_content sample_data,
                contentHtml := markdownToHtml sample_libs (pd_content sample_data)\<rparr>) =
      Some (q, db')"
    using update_post_exists [OF f3] by blast
  have e: "edit sample_libs (as_user bob) sample_db 3 sample_data = (Inr q, db')"
    using v b u by (simp add: edit_def)
  have e1: "content q = pd_content sample_data"
    and e2: "contentHtml q = markdownToHtml sample_libs (content q)"
    and e3: "findUnique db' 3 = Some q"
    using U [THEN conjunct2, THEN conjunct1, rule_format, OF e] by simp_all
  have ex: "\<exists>p db'. edit sample_libs (as_user bob) sample_db 3 sample_data = (Inr p, db')
         \<and> findUnique db' 3 = Some p \<and> content p = ''New *content*''
         \<and> contentHtml p = ''<p>New *content*</p>''"
    using e e1 e2 e3 pd r by auto
  note I1 = T [THEN conjunct2, THEN conjunct2, THEN mp, OF inv]
  note I2 = U [THEN conjunct2, THEN conjunct2, THEN mp, OF inv]
  note I3 = V [THEN conjunct2, THEN conjunct2, THEN mp, OF inv]
  note I4 = W [THEN conjunct2, THEN conjunct2, THEN mp, OF inv]
  show ?thesis
    using v inv a a1 a2 pd r ex I1 [THEN conjunct1] I2 [THEN conjunct2, THEN conjunct1]
      I2 [THEN conjunct2, THEN conjunct2, THEN conjunct1]
      I3 [THEN conjunct2, THEN conjunct2, THEN conjunct2, THEN conjunct1]
      I4 [THEN conjunct2, THEN conjunct2, THEN conjunct2, THEN conjunct2]
    by (simp add: list_all_iff)
qed

section \<open>feed\<close>

lemma orderBy_createdAt_desc_sorted:
  "sorted_wrt (\<lambda>a b. createdAt a \<ge> createdAt b) (orderBy_createdAt_desc ps)"
proof -
  have "sorted (map (\<lambda>p. - createdAt p) (sort_key (\<lambda>p. - createdAt p) ps))"
    by (rule sorted_sort_key)
  then show ?thesis
    by (simp add: orderBy_createdAt_desc_def sorted_map)
qed

lemma set_orderBy_createdAt_desc [simp]: "set (orderBy_createdAt_desc ps) = set ps"
  by (simp add: orderBy_createdAt_desc_def)

lemma sorted_wrt_take_drop:
  "sorted_wrt R xs \<Longrightarrow> sorted_wrt R (take n (drop m xs))"
  by (simp add: sorted_wrt_take sorted_wrt_drop)

lemma feed_valid_Inr:
  "feed_valid input \<Longrightarrow> feed c db input =
     Inr \<lparr> posts = map feed_select
              (take (nat (case Option.bind input fi_take of None \<Rightarrow> 50 | Some t \<Rightarrow> t))
                 (drop (nat (case Option.bind input fi_skip of None \<Rightarrow> 0 | Some s \<Rightarrow> s))
                    (orderBy_createdAt_desc (filter (feed_where c input) db)))),
           postCount = length (filter (feed_where c input) db) \<rparr>"
  by (simp add: feed_def Let_def)

lemma feed_take_bound:
  "feed_valid input \<Longrightarrow>
     nat (case Option.bind input fi_take of None \<Rightarrow> 50 | Some t \<Rightarrow> t) \<le> 50"
  by (auto simp add: feed_valid_def split: option.splits)

lemma feed_where_authorId:
  "feed_where c input = feed_where c input' "
  if "Option.bind input fi_authorId = Option.bind input' fi_authorId"
  using that by (simp add: feed_where_def fun_eq_iff)

lemma mset_orderBy_createdAt_desc: "mset (orderBy_createdAt_desc ps) = mset ps"
  by (simp add: orderBy_createdAt_desc_def)

lemma feed_take_skip:
  "nat (case Option.bind input fi_take of None \<Rightarrow> 50 | Some t \<Rightarrow> t) =
     (case input of None \<Rightarrow> 50
      | Some i \<Rightarrow> (case fi_take i of None \<Rightarrow> 50 | Some t \<Rightarrow> nat t))"
  "nat (case Option.bind input fi_skip of None \<Rightarrow> 0 | Some s \<Rightarrow> s) =
     (case input of None \<Rightarrow> 0
      | Some i \<Rightarrow> (case fi_skip i of None \<Rightarrow> 0 | Some s \<Rightarrow> nat s))"
  by (simp_all split: option.splits)


lemmas feed_eval =
  feed_def Let_def feed_valid_def feed_where_def sample_db_def sample_post_def
  as_user_def as_admin_def orderBy_createdAt_desc_def feed_select_def authorId_def
  alice_def bob_def

text \<open>
  C6. On input that passes the schema, \<open>feed\<close> returns a page and a count. Take all
  posts of the table that are not hidden, or all posts, hidden ones included, when the
  caller is an admin, and of these the posts of the given author when one is given;
  order them by creation time, newest first. The page is this list without its first
  \<open>skip\<close> posts (none when \<open>skip\<close> is not given), cut after \<open>take\<close> posts (50 when \<open>take\<close> is
  not given), each post in the selection of the feed; it is the whole list when nothing
  is skipped and the list is no longer than \<open>take\<close>. So no post of the page is hidden for
  a caller who is not an admin, every post of the page has the given author, the page
  is ordered by creation time, newest first, and holds at most 50 posts. The count is
  the number of all posts of the list, whatever \<open>take\<close> and \<open>skip\<close> are.
\<close>

theorem feed_page_and_count:
  assumes "feed_valid input"
  shows "\<exists>r rows. feed c db input = Inr r
    \<and> mset rows = mset (filter (\<lambda>p. (isUserAdmin c \<or> \<not> hidden p)
          \<and> (\<forall>a. Option.bind input fi_authorId = Some a \<longrightarrow> authorId p = a)) db)
    \<and> (isUserAdmin c \<longrightarrow> mset rows = mset (filter (\<lambda>p.
          \<forall>a. Option.bind input fi_authorId = Some a \<longrightarrow> authorId p = a) db))
    \<and> sorted_wrt (\<lambda>a b. createdAt a \<ge> createdAt b) rows
    \<and> rows = orderBy_createdAt_desc (filter (\<lambda>p. (isUserAdmin c \<or> \<not> hidden p)
          \<and> (\<forall>a. Option.bind input fi_authorId = Some a \<longrightarrow> authorId p = a)) db)
    \<and> posts r = map feed_select
          (take (case input of None \<Rightarrow> 50
                 | Some i \<Rightarrow> (case fi_take i of None \<Rightarrow> 50 | Some t \<Rightarrow> nat t))
             (drop (case input of None \<Rightarrow> 0
                    | Some i \<Rightarrow> (case fi_skip i of None \<Rightarrow> 0 | Some s \<Rightarrow> nat s))
                rows))
    \<and> (Option.bind input fi_skip = None \<and> length rows \<le> 50
          \<and> (\<forall>t. Option.bind input fi_take = Some t \<longrightarrow> int (length rows) \<le> t) \<longrightarrow>
          posts r = map feed_select rows)
    \<and> (\<forall>q \<in> set (posts r). \<exists>p \<in> set db. q = feed_select p
          \<and> (isUserAdmin c \<or> \<not> hidden p)
          \<and> (\<forall>a. Option.bind input fi_authorId = Some a \<longrightarrow> authorId p = a))
    \<and> (\<not> isUserAdmin c \<longrightarrow> (\<forall>q \<in> set (posts r). \<not> fp_hidden q))
    \<and> (\<forall>a. Option.bind input fi_authorId = Some a \<longrightarrow>
          (\<forall>q \<in> set (posts r). user_id (fp_author q) = a))
    \<and> sorted_wrt (\<lambda>a b. fp_createdAt a \<ge> fp_createdAt b) (posts r)
    \<and> length (posts r) \<le> 50
    \<and> postCount r = length (filter (\<lambda>p. (isUserAdmin c \<or> \<not> hidden p)
          \<and> (\<forall>a. Option.bind input fi_authorId = Some a \<longrightarrow> authorId p = a)) db)
    \<and> (\<forall>input'. feed_valid input'
          \<and> Option.bind input' fi_authorId = Option.bind input fi_authorId \<longrightarrow>
          (\<exists>r'. feed c db input' = Inr r' \<and> postCount r' = postCount r))"
proof -
  let ?W = "\<lambda>p. (isUserAdmin c \<or> \<not> hidden p)
             \<and> (\<forall>a. Option.bind input fi_authorId = Some a \<longrightarrow> authorId p = a)"
  let ?A = "\<lambda>p. \<forall>a. Option.bind input fi_authorId = Some a \<longrightarrow> authorId p = a"
  let ?t = "case input of None \<Rightarrow> 50
            | Some i \<Rightarrow> (case fi_take i of None \<Rightarrow> 50 | Some t \<Rightarrow> nat t)"
  let ?s = "case input of None \<Rightarrow> 0
            | Some i \<Rightarrow> (case fi_skip i of None \<Rightarrow> 0 | Some s \<Rightarrow> nat s)"
  let ?rows = "orderBy_createdAt_desc (filter ?W db)"
  let ?page = "take ?t (drop ?s ?rows)"
  let ?r = "\<lparr> posts = map feed_select ?page, postCount = length (filter ?W db) \<rparr>"
  have W: "feed_where c input = ?W"
    by (auto simp add: feed_where_def fun_eq_iff split: option.splits)
  have r: "feed c db input = Inr ?r"
    using feed_valid_Inr [OF assms, of c db] by (simp only: W feed_take_skip)
  have perm: "mset ?rows = mset (filter ?W db)"
    by (rule mset_orderBy_createdAt_desc)
  have adm: "isUserAdmin c \<longrightarrow> mset ?rows = mset (filter ?A db)"
  proof
    assume "isUserAdmin c"
    then have "filter ?W db = filter ?A db" by simp
    then show "mset ?rows = mset (filter ?A db)"
      by (simp only: mset_orderBy_createdAt_desc)
  qed
  have srows: "sorted_wrt (\<lambda>a b. createdAt a \<ge> createdAt b) ?rows"
    by (rule orderBy_createdAt_desc_sorted)
  have tb: "?t \<le> 50"
    using feed_take_bound [OF assms] by (simp only: feed_take_skip)
  have whole: "Option.bind input fi_skip = None \<and> length ?rows \<le> 50
          \<and> (\<forall>t. Option.bind input fi_take = Some t \<longrightarrow> int (length ?rows) \<le> t) \<longrightarrow>
          posts ?r = map feed_select ?rows"
  proof
    assume h: "Option.bind input fi_skip = None \<and> length ?rows \<le> 50
          \<and> (\<forall>t. Option.bind input fi_take = Some t \<longrightarrow> int (length ?rows) \<le> t)"
    then have s0: "?s = 0"
      by (auto split: option.splits)
    have "length ?rows \<le> ?t"
      using h by (auto split: option.splits)
    then have "take ?t ?rows = ?rows" by simp
    then show "posts ?r = map feed_select ?rows"
      using s0 by simp
  qed
  have sub: "set ?page \<subseteq> set (filter ?W db)"
  proof -
    have "set ?page \<subseteq> set (drop ?s ?rows)"
      by (rule set_take_subset)
    also have "\<dots> \<subseteq> set ?rows"
      by (rule set_drop_subset)
    finally show ?thesis by simp
  qed
  have each: "\<forall>q \<in> set (posts ?r). \<exists>p \<in> set db. q = feed_select p \<and> ?W p"
  proof
    fix q assume "q \<in> set (posts ?r)"
    then obtain p where "p \<in> set ?page" "q = feed_select p" by auto
    with sub have "p \<in> set (filter ?W db)" by blast
    then have "p \<in> set db" "?W p" by simp_all
    with \<open>q = feed_select p\<close> show "\<exists>p \<in> set db. q = feed_select p \<and> ?W p" by blast
  qed
  have hid: "\<not> isUserAdmin c \<longrightarrow> (\<forall>q \<in> set (posts ?r). \<not> fp_hidden q)"
  proof (intro impI ballI)
    fix q assume na: "\<not> isUserAdmin c" and "q \<in> set (posts ?r)"
    with each obtain p where "q = feed_select p" "?W p" by blast
    with na show "\<not> fp_hidden q" by (simp add: feed_select_def)
  qed
  have auth: "\<forall>a. Option.bind input fi_authorId = Some a \<longrightarrow>
          (\<forall>q \<in> set (posts ?r). user_id (fp_author q) = a)"
  proof (intro allI impI ballI)
    fix a q assume a: "Option.bind input fi_authorId = Some a" and "q \<in> set (posts ?r)"
    with each obtain p where "q = feed_select p" "?W p" by blast
    with a show "user_id (fp_author q) = a" by (simp add: feed_select_def authorId_def)
  qed
  have srt: "sorted_wrt (\<lambda>a b. fp_createdAt a \<ge> fp_createdAt b) (posts ?r)"
  proof -
    have "sorted_wrt (\<lambda>a b. createdAt a \<ge> createdAt b) ?page"
      by (intro sorted_wrt_take_drop orderBy_createdAt_desc_sorted)
    then show ?thesis
      by (simp add: sorted_wrt_map feed_select_def)
  qed
  have len: "length (posts ?r) \<le> 50"
    using tb by simp
  have page: "posts ?r = map feed_select ?page"
    by simp
  have cnt: "postCount ?r = length (filter ?W db)"
    by simp
  have indep: "\<forall>input'. feed_valid input'
          \<and> Option.bind input' fi_authorId = Option.bind input fi_authorId \<longrightarrow>
          (\<exists>r'. feed c db input' = Inr r' \<and> postCount r' = postCount ?r)"
  proof (intro allI impI)
    fix input'
    assume h: "feed_valid input'
        \<and> Option.bind input' fi_authorId = Option.bind input fi_authorId"
    then have "feed_where c input' = ?W"
      using feed_where_authorId [of input' input c] W by simp
    then show "\<exists>r'. feed c db input' = Inr r' \<and> postCount r' = postCount ?r"
      using h by (simp add: feed_valid_Inr)
  qed
  show ?thesis
    apply (rule exI [of _ ?r])
    apply (rule exI [of _ ?rows])
    apply (intro conjI)
                 apply (rule r)
                apply (rule perm)
               apply (rule adm)
              apply (rule srows)
             apply (rule refl)
            apply (rule page)
           apply (rule whole)
          apply (rule each)
         apply (rule hid)
        apply (rule auth)
       apply (rule srt)
      apply (rule len)
     apply (rule cnt)
    apply (rule indep)
    done
qed

theorem feed_page_and_count_witness:
  "feed_valid None
   \<and> (\<exists>r. feed (as_user alice) sample_db None = Inr r
         \<and> map fp_id (posts r) = [3, 1] \<and> map fp_hidden (posts r) = [False, False]
         \<and> postCount r = 2
         \<and> sorted_wrt (\<lambda>a b. fp_createdAt a \<ge> fp_createdAt b) (posts r))
   \<and> (\<exists>r. feed (as_admin alice) sample_db None = Inr r
         \<and> map fp_id (posts r) = [2, 3, 1] \<and> map fp_hidden (posts r) = [True, False, False]
         \<and> postCount r = 3)
   \<and> feed_valid (Some \<lparr>fi_take = Some 1, fi_skip = Some 1, fi_authorId = Some ''u-bob''\<rparr>)
   \<and> (\<exists>r. feed (as_admin alice) sample_db
              (Some \<lparr>fi_take = Some 1, fi_skip = Some 1, fi_authorId = Some ''u-bob''\<rparr>) = Inr r
         \<and> map fp_id (posts r) = [3] \<and> postCount r = 2)"
proof -
  let ?i = "Some \<lparr>fi_take = Some 1, fi_skip = Some 1, fi_authorId = Some ''u-bob''\<rparr>"
  let ?desc = "\<lambda>a b. fp_createdAt b \<le> fp_createdAt a"
  have v: "feed_valid None" "feed_valid ?i"
    by (simp_all add: feed_valid_def)
  have "\<exists>r. feed (as_user alice) sample_db None = Inr r \<and> sorted_wrt ?desc (posts r)
      \<and> posts r = map feed_select (take 50 (drop 0 (orderBy_createdAt_desc
            (filter (\<lambda>p. \<not> hidden p) sample_db))))
      \<and> postCount r = length (filter (\<lambda>p. \<not> hidden p) sample_db)"
    using feed_page_and_count [OF v(1), of "as_user alice" sample_db]
    by (auto simp add: as_user_def)
  then obtain r1 where r1: "feed (as_user alice) sample_db None = Inr r1"
    and s1: "sorted_wrt ?desc (posts r1)"
    and p1: "posts r1 = map feed_select (take 50 (drop 0 (orderBy_createdAt_desc
            (filter (\<lambda>p. \<not> hidden p) sample_db))))"
    and c1: "postCount r1 = length (filter (\<lambda>p. \<not> hidden p) sample_db)"
    by blast
  have "\<exists>r. feed (as_admin alice) sample_db None = Inr r
      \<and> posts r = map feed_select (take 50 (drop 0 (orderBy_createdAt_desc sample_db)))
      \<and> postCount r = length sample_db"
    using feed_page_and_count [OF v(1), of "as_admin alice" sample_db]
    by (auto simp add: as_admin_def)
  then obtain r2 where r2: "feed (as_admin alice) sample_db None = Inr r2"
    and p2: "posts r2 = map feed_select (take 50 (drop 0 (orderBy_createdAt_desc sample_db)))"
    and c2: "postCount r2 = length sample_db"
    by blast
  have "\<exists>r. feed (as_admin alice) sample_db ?i = Inr r
      \<and> posts r = map feed_select (take 1 (drop 1 (orderBy_createdAt_desc
            (filter (\<lambda>p. authorId p = ''u-bob'') sample_db))))
      \<and> postCount r = length (filter (\<lambda>p. authorId p = ''u-bob'') sample_db)"
    using feed_page_and_count [OF v(2), of "as_admin alice" sample_db]
    by (auto simp add: as_admin_def)
  then obtain r3 where r3: "feed (as_admin alice) sample_db ?i = Inr r3"
    and p3: "posts r3 = map feed_select (take 1 (drop 1 (orderBy_createdAt_desc
            (filter (\<lambda>p. authorId p = ''u-bob'') sample_db))))"
    and c3: "postCount r3 = length (filter (\<lambda>p. authorId p = ''u-bob'') sample_db)"
    by blast
  have e1: "map fp_id (posts r1) = [3, 1] \<and> map fp_hidden (posts r1) = [False, False]
      \<and> postCount r1 = 2"
    unfolding p1 c1 by (simp add: feed_eval)
  have e2: "map fp_id (posts r2) = [2, 3, 1] \<and> map fp_hidden (posts r2) = [True, False, False]
      \<and> postCount r2 = 3"
    unfolding p2 c2 by (simp add: feed_eval)
  have e3: "map fp_id (posts r3) = [3] \<and> postCount r3 = 2"
    unfolding p3 c3 by (simp add: feed_eval)
  show ?thesis
    using v r1 s1 e1 r2 e2 r3 e3 by simp
qed

section \<open>add: the notification\<close>

text \<open>
  \<open>add\<close> awaits the notification and has no handler of its own: an error thrown by the
  awaited call would fail the mutation after the row is written. The notification of
  the specification never throws.
\<close>

lemma add_notify_throws:
  assumes "data_valid d"
    and "notify (create_post l c newId now d) (user_name (session_user c)) = (Inl e, ef)"
  shows "add l notify c newId now db d =
     (Inl e, db @ [create_post l c newId now d], StoreCreate (create_post l c newId now d) # ef)"
  using assms by (simp add: add_def Let_def)

lemma postToSlackIfEnabled_resolves:
  "\<exists>ef. postToSlackIfEnabled s p n = (Inr (), ef)"
  by (simp add: postToSlackIfEnabled_def split: upstream.splits)

text \<open>
  C7. On data that passes the schema, \<open>add\<close> writes the new post first and then
  notifies the external channel. Whatever the webhook answers, a failure included,
  \<open>add\<close> succeeds and returns the created post, which is in the table; a failure is
  logged.
\<close>

theorem add_notifies_best_effort:
  assumes "data_valid d"
  shows "\<exists>effects.
      add l (postToSlackIfEnabled s) c newId now db d =
        (Inr (create_post l c newId now d), db @ [create_post l c newId now d],
         StoreCreate (create_post l c newId now d) # effects)
    \<and> effects =
        (if slack_enabled s then
           SlackPost (create_post l c newId now d) (user_name (session_user c)) #
           (case slack_webhook s (create_post l c newId now d) (user_name (session_user c)) of
              Delivered \<Rightarrow> []
            | UpstreamFailure reason \<Rightarrow> [Logged reason])
         else [])"
  using assms
  by (simp add: add_def Let_def postToSlackIfEnabled_def split: upstream.splits)

theorem add_notifies_best_effort_witness:
  "data_valid sample_data
   \<and> slack_webhook slack_down (create_post sample_libs (as_user alice) 4 400 sample_data) ''Alice'' =
        UpstreamFailure ''timeout''
   \<and> add sample_libs (postToSlackIfEnabled slack_down) (as_user alice) 4 400 sample_db sample_data =
        (Inr (create_post sample_libs (as_user alice) 4 400 sample_data),
         sample_db @ [create_post sample_libs (as_user alice) 4 400 sample_data],
         [StoreCreate (create_post sample_libs (as_user alice) 4 400 sample_data),
          SlackPost (create_post sample_libs (as_user alice) 4 400 sample_data) ''Alice'',
          Logged ''timeout''])"
proof -
  have v: "data_valid sample_data"
    by (simp add: data_valid_def sample_data_def)
  have w: "slack_webhook slack_down (create_post sample_libs (as_user alice) 4 400 sample_data)
      ''Alice'' = UpstreamFailure ''timeout''" "slack_enabled slack_down"
    by (simp_all add: slack_down_def)
  have n: "user_name (session_user (as_user alice)) = ''Alice''"
    by (simp add: as_user_def alice_def)
  show ?thesis
    using add_notifies_best_effort [OF v, of sample_libs slack_down "as_user alice" 4 400 sample_db]
      v w n by auto
qed

end
